theory Spec2Isabelle
  imports Main
begin

section \<open>The offscreen keepalive page of brotab (extension/chrome/offscreen.js)\<close>

text \<open>
  The page holds one variable, \<open>swPort\<close>, and three pieces of code: the function
  \<open>connectSW\<close>, the arrow function given to \<open>setInterval\<close> (the heartbeat) and the
  arrow function registered on \<open>swPort.onDisconnect\<close>. Everything else is the browser:
  its timers, its ports, its console and its clock. The browser's side is modelled as
  an explicit state that the page's code passes along, and the browser's event loop as
  the events it delivers to the page, one callback at a time and each run to completion.
\<close>

subsection \<open>Values\<close>

type_synonym time = nat
  \<comment> \<open>milliseconds since the epoch: the value of \<open>Date.now()\<close>, also the timers' clock\<close>

type_synonym port = nat
  \<comment> \<open>the identity of a Port object returned by \<open>chrome.runtime.connect\<close>\<close>

type_synonym timer_id = nat
  \<comment> \<open>the handle returned by \<open>setInterval\<close> and \<open>setTimeout\<close>\<close>

datatype exn = TypeError | PlatformError string
  \<comment> \<open>a thrown value: a property read on \<open>null\<close>, or whatever a browser call throws\<close>

datatype jsval = JStr string | JNum nat

type_synonym jsobj = "(string \<times> jsval) list"
  \<comment> \<open>an object literal: its keys with their values, in the order written\<close>

datatype callback = ConnectSW | Ping
  \<comment> \<open>the two functions the page hands to a timer: \<open>connectSW\<close> itself and the heartbeat
      arrow function, which captures nothing but the shared variable \<open>swPort\<close>\<close>

datatype listener = OnDisconnect (captured: timer_id)
  \<comment> \<open>the arrow function registered on \<open>onDisconnect\<close>; it captures the constant
      \<open>pingInterval\<close> of the call of \<open>connectSW\<close> that created it\<close>

datatype log_line = Log string | Warn string | Error string exn
  \<comment> \<open>\<open>console.log\<close>, \<open>console.warn\<close>, \<open>console.error\<close>\<close>

record timer =
  tid :: timer_id
  due :: time
  period :: "nat option"
  callback :: callback

text \<open>
  A timer with \<open>period = Some n\<close> was made by \<open>setInterval\<close> and repeats every \<open>n\<close>
  milliseconds; one with \<open>period = None\<close> was made by \<open>setTimeout\<close> and runs once.
\<close>

record state =
  swPort :: "port option"
  timers :: "timer list"
  next_timer :: timer_id
  channels :: "jsobj list"
  open_ports :: "port list"
  listeners :: "(port \<times> listener) list"
  console :: "log_line list"
  sent :: "(port \<times> jsobj) list"
  now :: time

text \<open>
  \<open>swPort\<close> is the page's variable (\<open>None\<close> is \<open>null\<close>). The other fields are the
  browser's: the active timers and the next free handle; the connect requests made so
  far (port \<open>p\<close> is the answer to request number \<open>p\<close>); the ports the browser has not yet
  reported disconnected; the listeners registered on \<open>onDisconnect\<close>, each with its port;
  the console's lines; the messages accepted by \<open>postMessage\<close>, each with its port; and
  the clock.
\<close>

record env =
  connect_throws :: "exn option"
  post_throws :: "exn option"

text \<open>
  What the browser answers during one callback, which the page cannot foresee: whether
  \<open>chrome.runtime.connect\<close> throws, and whether \<open>postMessage\<close> throws.
\<close>

subsection \<open>The browser's calls\<close>

text \<open>
  A call that may throw returns \<open>Inl\<close> of the thrown value or \<open>Inr\<close> of its result,
  together with the state it leaves. Two calls may throw: \<open>chrome.runtime.connect\<close> and
  \<open>postMessage\<close>. The console, the timer calls, \<open>addListener\<close> and \<open>Date.now\<close> do not.

  A port returned by \<open>connect\<close> is a new object, and connected. Timer handles come from
  one counter for \<open>setTimeout\<close> and \<open>setInterval\<close> alike and are not handed out a second
  time; \<open>clearInterval\<close> removes the timer that has the handle. A callback runs at one
  instant of the clock.
\<close>

definition runtime_connect :: "jsobj \<Rightarrow> env \<Rightarrow> state \<Rightarrow> (exn + port) \<times> state" where
  "runtime_connect info e s =
     (case connect_throws e of
        Some x \<Rightarrow> (Inl x, s)
      | None \<Rightarrow>
          (Inr (length (channels s)),
           s\<lparr>channels := channels s @ [info],
             open_ports := open_ports s @ [length (channels s)]\<rparr>))"

definition console_log :: "string \<Rightarrow> state \<Rightarrow> state" where
  "console_log m s = s\<lparr>console := console s @ [Log m]\<rparr>"

definition console_warn :: "string \<Rightarrow> state \<Rightarrow> state" where
  "console_warn m s = s\<lparr>console := console s @ [Warn m]\<rparr>"

definition console_error :: "string \<Rightarrow> exn \<Rightarrow> state \<Rightarrow> state" where
  "console_error m x s = s\<lparr>console := console s @ [Error m x]\<rparr>"

definition add_timer :: "callback \<Rightarrow> nat \<Rightarrow> nat option \<Rightarrow> state \<Rightarrow> timer_id \<times> state" where
  "add_timer cb ms rep s =
     (next_timer s,
      s\<lparr>timers := timers s @
           [\<lparr>tid = next_timer s, due = now s + ms, period = rep, callback = cb\<rparr>],
        next_timer := Suc (next_timer s)\<rparr>)"

definition setInterval :: "callback \<Rightarrow> nat \<Rightarrow> state \<Rightarrow> timer_id \<times> state" where
  "setInterval cb ms = add_timer cb ms (Some ms)"

definition setTimeout :: "callback \<Rightarrow> nat \<Rightarrow> state \<Rightarrow> timer_id \<times> state" where
  "setTimeout cb ms = add_timer cb ms None"

definition clearInterval :: "timer_id \<Rightarrow> state \<Rightarrow> state" where
  "clearInterval i s = s\<lparr>timers := filter (\<lambda>t. tid t \<noteq> i) (timers s)\<rparr>"

definition addListener :: "port \<Rightarrow> listener \<Rightarrow> state \<Rightarrow> state" where
  "addListener p l s = s\<lparr>listeners := listeners s @ [(p, l)]\<rparr>"

definition postMessage :: "port \<Rightarrow> jsobj \<Rightarrow> env \<Rightarrow> state \<Rightarrow> (exn + unit) \<times> state" where
  "postMessage p m e s =
     (case post_throws e of
        Some x \<Rightarrow> (Inl x, s)
      | None \<Rightarrow> (Inr (), s\<lparr>sent := sent s @ [(p, m)]\<rparr>))"

definition Date_now :: "state \<Rightarrow> nat" where
  "Date_now s = now s"

subsection \<open>The page's code\<close>

text \<open>
  The body of the \<open>try\<close> block of \<open>connectSW\<close>, lines 9 to 22. The assignment to
  \<open>swPort\<close> happens only when \<open>connect\<close> has returned. The listener is registered on
  the port read back from \<open>swPort\<close>, as the source writes it.
\<close>

definition connectSW_try :: "env \<Rightarrow> state \<Rightarrow> (exn + unit) \<times> state" where
  "connectSW_try e s =
     (case runtime_connect [(''name'', JStr ''bt-keepalive'')] e s of
        (Inl x, s1) \<Rightarrow> (Inl x, s1)
      | (Inr p, s1) \<Rightarrow>
          (let s2 = s1\<lparr>swPort := Some p\<rparr>;
               s3 = console_log ''[offscreen] Connected keepalive port to service worker'' s2;
               (pingInterval, s4) = setInterval Ping 20000 s3
           in case swPort s4 of
                None \<Rightarrow> (Inl TypeError, s4)
              | Some q \<Rightarrow> (Inr (), addListener q (OnDisconnect pingInterval) s4)))"

text \<open>\<open>connectSW\<close>, lines 7 to 27: the \<open>try\<close> block and its \<open>catch\<close>.\<close>

definition connectSW :: "env \<Rightarrow> state \<Rightarrow> (exn + unit) \<times> state" where
  "connectSW e s =
     (case connectSW_try e s of
        (Inr u, s1) \<Rightarrow> (Inr u, s1)
      | (Inl x, s1) \<Rightarrow>
          (let s2 = console_error ''[offscreen] Failed to connect to SW'' x s1;
               (_, s3) = setTimeout ConnectSW 2000 s2
           in (Inr (), s3)))"

text \<open>
  The heartbeat, line 14: the \<open>try\<close> block reads \<open>swPort\<close> (a \<open>TypeError\<close> when it is
  \<open>null\<close>), builds the message and posts it; the \<open>catch\<close> is empty.
\<close>

definition ping_try :: "env \<Rightarrow> state \<Rightarrow> (exn + unit) \<times> state" where
  "ping_try e s =
     (case swPort s of
        None \<Rightarrow> (Inl TypeError, s)
      | Some p \<Rightarrow> postMessage p [(''type'', JStr ''ping''), (''ts'', JNum (Date_now s))] e s)"

definition ping :: "env \<Rightarrow> state \<Rightarrow> (exn + unit) \<times> state" where
  "ping e s =
     (case ping_try e s of
        (Inr u, s1) \<Rightarrow> (Inr u, s1)
      | (Inl _, s1) \<Rightarrow> (Inr (), s1))"

text \<open>The disconnect listener, lines 17 to 22, with the \<open>pingInterval\<close> it captured.\<close>

definition onDisconnect :: "timer_id \<Rightarrow> state \<Rightarrow> (exn + unit) \<times> state" where
  "onDisconnect pingInterval s =
     (let s1 = clearInterval pingInterval s;
          s2 = console_warn ''[offscreen] Keepalive port disconnected'' s1;
          (_, s3) = setTimeout ConnectSW 1000 s2
      in (Inr (), s3))"

text \<open>The page as loaded, lines 4, 5, 29 and 30: \<open>swPort\<close> is \<open>null\<close>, then \<open>connectSW()\<close>.\<close>

definition initial :: "time \<Rightarrow> state" where
  "initial t0 =
     \<lparr>swPort = None, timers = [], next_timer = 1, channels = [], open_ports = [],
      listeners = [], console = [], sent = [], now = t0\<rparr>"

definition boot :: "time \<Rightarrow> env \<Rightarrow> state" where
  "boot t0 e = snd (connectSW e (initial t0))"

subsection \<open>The event loop\<close>

text \<open>
  A callback that throws ends there; the loop goes on with the state it left.
\<close>

fun run_callback :: "callback \<Rightarrow> env \<Rightarrow> state \<Rightarrow> (exn + unit) \<times> state" where
  "run_callback ConnectSW e s = connectSW e s"
| "run_callback Ping e s = ping e s"

fun run_listener :: "listener \<Rightarrow> state \<Rightarrow> state" where
  "run_listener (OnDisconnect i) s = snd (onDisconnect i s)"

text \<open>
  A timeout leaves the timer list before its callback runs. An interval stays, and is
  due again one period after the time it was due.
\<close>

definition fire_timer :: "timer \<Rightarrow> env \<Rightarrow> state \<Rightarrow> state" where
  "fire_timer t e s =
     (case period t of
        None \<Rightarrow>
          snd (run_callback (callback t) e
                 (s\<lparr>timers := filter (\<lambda>u. tid u \<noteq> tid t) (timers s)\<rparr>))
      | Some n \<Rightarrow>
          (let s1 = snd (run_callback (callback t) e s)
           in s1\<lparr>timers := map (\<lambda>u. if tid u = tid t then u\<lparr>due := due u + n\<rparr> else u)
                              (timers s1)\<rparr>))"

text \<open>
  The port is disconnected, and the listeners registered on it run in the order they
  were registered.
\<close>

definition disconnect :: "port \<Rightarrow> state \<Rightarrow> state" where
  "disconnect p s =
     fold run_listener (map snd (filter (\<lambda>pl. fst pl = p) (listeners s)))
       (s\<lparr>open_ports := removeAll p (open_ports s)\<rparr>)"

text \<open>
  What the browser does between callbacks: the clock moves on by some milliseconds; the
  timer with a handle is run, with the browser's answers during its callback; a port is
  disconnected.
\<close>

datatype event = Advance nat | Fire timer_id env | Disconnect port

fun deliver :: "event \<Rightarrow> state \<Rightarrow> state" where
  "deliver (Advance d) s = s\<lparr>now := now s + d\<rparr>"
| "deliver (Fire i e) s =
     (case find (\<lambda>t. tid t = i) (timers s) of
        None \<Rightarrow> s
      | Some t \<Rightarrow> fire_timer t e s)"
| "deliver (Disconnect p) s = disconnect p s"

text \<open>
  What the browser promises about timers: the clock does not pass the time a timer is
  due without the timer being run, and a timer is not run before it is due.
\<close>

fun timely :: "event \<Rightarrow> state \<Rightarrow> bool" where
  "timely (Advance d) s = list_all (\<lambda>t. now s + d \<le> due t) (timers s)"
| "timely (Fire i e) s = list_ex (\<lambda>t. tid t = i \<and> due t \<le> now s) (timers s)"
| "timely (Disconnect p) s = True"

text \<open>
  What the browser promises about ports: \<open>onDisconnect\<close> is delivered for a port that
  is connected, which it then no longer is; so it is delivered once for a port.
\<close>

fun enabled :: "event \<Rightarrow> state \<Rightarrow> bool" where
  "enabled (Disconnect p) s = (p \<in> set (open_ports s))"
| "enabled ev s = timely ev s"

text \<open>
  A run of the event loop with a browser that keeps both promises: each event is
  enabled when it is delivered. \<open>None\<close> when an event of the list is not.
\<close>

fun run :: "event list \<Rightarrow> state \<Rightarrow> state option" where
  "run [] s = Some s"
| "run (ev # evs) s = (if enabled ev s then run evs (deliver ev s) else None)"

text \<open>
  A run with a browser that keeps its promise about timers only, and may deliver
  \<open>onDisconnect\<close> for any port, at any time and more than once.
\<close>

fun run_lax :: "event list \<Rightarrow> state \<Rightarrow> state option" where
  "run_lax [] s = Some s"
| "run_lax (ev # evs) s = (if timely ev s then run_lax evs (deliver ev s) else None)"

text \<open>
  A run with a browser whose timers may be late: the clock may pass the time a timer is
  due, and the timer is run at some later time. It is still not run early, and
  \<open>onDisconnect\<close> is delivered for connected ports only.
\<close>

fun allowed :: "event \<Rightarrow> state \<Rightarrow> bool" where
  "allowed (Advance d) s = True"
| "allowed (Fire i e) s = list_ex (\<lambda>t. tid t = i \<and> due t \<le> now s) (timers s)"
| "allowed (Disconnect p) s = (p \<in> set (open_ports s))"

fun run_late :: "event list \<Rightarrow> state \<Rightarrow> state option" where
  "run_late [] s = Some s"
| "run_late (ev # evs) s = (if allowed ev s then run_late evs (deliver ev s) else None)"

text \<open>The heartbeat timers and the pending retries among the active timers.\<close>

definition heartbeats :: "state \<Rightarrow> timer list" where
  "heartbeats s = filter (\<lambda>t. callback t = Ping) (timers s)"

definition retries :: "state \<Rightarrow> timer list" where
  "retries s = filter (\<lambda>t. callback t = ConnectSW) (timers s)"

text \<open>The browser's answers in the examples: no call throws, or both calls do.\<close>

definition ok :: env where
  "ok = \<lparr>connect_throws = None, post_throws = None\<rparr>"

definition failing :: env where
  "failing = \<lparr>connect_throws = Some (PlatformError ''no service worker''),
               post_throws = Some (PlatformError ''disconnected port'')\<rparr>"

subsection \<open>The two shapes of a state between events\<close>

text \<open>
  Every listener is registered on a port that a connect request has returned.
\<close>

definition known_ports :: "state \<Rightarrow> bool" where
  "known_ports s \<longleftrightarrow> list_all (\<lambda>pl. fst pl < length (channels s)) (listeners s)"

text \<open>
  \<open>beating s p t\<close>: port \<open>p\<close> is the one in \<open>swPort\<close> and the only connected one, its
  heartbeat \<open>t\<close> is the only timer, and the one listener on \<open>p\<close> captured \<open>t\<close>'s handle.
\<close>

definition beating :: "state \<Rightarrow> port \<Rightarrow> timer \<Rightarrow> bool" where
  "beating s p t \<longleftrightarrow>
     timers s = [t] \<and> callback t = Ping \<and> period t = Some 20000 \<and>
     tid t < next_timer s \<and> now s \<le> due t \<and> due t \<le> now s + 20000 \<and>
     swPort s = Some p \<and> open_ports s = [p] \<and> p < length (channels s) \<and>
     filter (\<lambda>pl. fst pl = p) (listeners s) = [(p, OnDisconnect (tid t))] \<and>
     known_ports s"

text \<open>\<open>waiting s t\<close>: no port is connected and the retry \<open>t\<close> is the only timer.\<close>

definition waiting :: "state \<Rightarrow> timer \<Rightarrow> bool" where
  "waiting s t \<longleftrightarrow>
     timers s = [t] \<and> callback t = ConnectSW \<and> period t = None \<and>
     tid t < next_timer s \<and> now s \<le> due t \<and> due t \<le> now s + 2000 \<and>
     open_ports s = [] \<and> known_ports s"

definition steady :: "state \<Rightarrow> bool" where
  "steady s \<longleftrightarrow> (\<exists>p t. beating s p t) \<or> (\<exists>t. waiting s t)"

text \<open>
  The same two shapes without the clock: \<open>pulsing\<close> is \<open>beating\<close> and \<open>pending\<close> is
  \<open>waiting\<close>, leaving out when the timer is due.
\<close>

definition pulsing :: "state \<Rightarrow> port \<Rightarrow> timer \<Rightarrow> bool" where
  "pulsing s p t \<longleftrightarrow>
     timers s = [t] \<and> callback t = Ping \<and> period t = Some 20000 \<and>
     swPort s = Some p \<and> open_ports s = [p] \<and>
     filter (\<lambda>pl. fst pl = p) (listeners s) = [(p, OnDisconnect (tid t))] \<and>
     known_ports s"

definition pending :: "state \<Rightarrow> timer \<Rightarrow> bool" where
  "pending s t \<longleftrightarrow>
     timers s = [t] \<and> callback t = ConnectSW \<and> period t = None \<and>
     open_ports s = [] \<and> known_ports s"

definition settled :: "state \<Rightarrow> bool" where
  "settled s \<longleftrightarrow> (\<exists>p t. pulsing s p t) \<or> (\<exists>t. pending s t)"

text \<open>
  \<open>fresh s\<close>: the handles in use are below the next free one, and no two listeners
  share a port or a captured timer handle.
\<close>

definition fresh :: "state \<Rightarrow> bool" where
  "fresh s \<longleftrightarrow>
     list_all (\<lambda>t. tid t < next_timer s) (timers s) \<and>
     list_all (\<lambda>pl. fst pl < length (channels s) \<and> captured (snd pl) < next_timer s)
       (listeners s) \<and>
     distinct (map fst (listeners s)) \<and> distinct (map snd (listeners s))"

section \<open>What each piece of code does\<close>

lemma connectSW_throws:
  "connect_throws e = Some x \<Longrightarrow>
   connectSW e s =
     (Inr (),
      s\<lparr>console := console s @ [Error ''[offscreen] Failed to connect to SW'' x],
        timers := timers s @
          [\<lparr>tid = next_timer s, due = now s + 2000, period = None, callback = ConnectSW\<rparr>],
        next_timer := Suc (next_timer s)\<rparr>)"
  by (simp add: connectSW_def connectSW_try_def runtime_connect_def console_error_def
      setTimeout_def add_timer_def)

lemma connectSW_opens:
  "connect_throws e = None \<Longrightarrow>
   connectSW e s =
     (Inr (),
      s\<lparr>channels := channels s @ [[(''name'', JStr ''bt-keepalive'')]],
        open_ports := open_ports s @ [length (channels s)],
        swPort := Some (length (channels s)),
        console := console s @ [Log ''[offscreen] Connected keepalive port to service worker''],
        timers := timers s @
          [\<lparr>tid = next_timer s, due = now s + 20000, period = Some 20000, callback = Ping\<rparr>],
        next_timer := Suc (next_timer s),
        listeners := listeners s @ [(length (channels s), OnDisconnect (next_timer s))]\<rparr>)"
  by (simp add: connectSW_def connectSW_try_def runtime_connect_def console_log_def
      setInterval_def add_timer_def addListener_def)

lemma onDisconnect_eq:
  "onDisconnect i s =
     (Inr (),
      s\<lparr>timers := filter (\<lambda>t. tid t \<noteq> i) (timers s) @
          [\<lparr>tid = next_timer s, due = now s + 1000, period = None, callback = ConnectSW\<rparr>],
        console := console s @ [Warn ''[offscreen] Keepalive port disconnected''],
        next_timer := Suc (next_timer s)\<rparr>)"
  by (simp add: onDisconnect_def clearInterval_def console_warn_def setTimeout_def add_timer_def)

lemma ping_eq:
  "ping e s =
     (Inr (),
      case swPort s of
        None \<Rightarrow> s
      | Some p \<Rightarrow>
          (case post_throws e of
             Some x \<Rightarrow> s
           | None \<Rightarrow> s\<lparr>sent := sent s @ [(p, [(''type'', JStr ''ping''), (''ts'', JNum (now s))])]\<rparr>))"
  by (simp add: ping_def ping_try_def postMessage_def Date_now_def split: option.splits)

lemmas evals = boot_def initial_def ok_def failing_def connectSW_opens connectSW_throws
  fire_timer_def ping_eq disconnect_def onDisconnect_eq

section \<open>The state between events\<close>

lemma filter_fresh_port:
  "list_all (\<lambda>pl. fst pl < (n::nat)) ls \<Longrightarrow> filter (\<lambda>pl. fst pl = n) ls = []"
  by (induction ls) auto

lemma known_ports_mono:
  "list_all (\<lambda>pl. fst pl < (n::nat)) ls \<Longrightarrow> list_all (\<lambda>pl. fst pl < Suc n) ls"
  by (induction ls) auto

lemma connectSW_steady:
  assumes "timers s = []" "open_ports s = []" "known_ports s"
  shows "steady (snd (connectSW e s))"
proof (cases "connect_throws e")
  case None
  have "beating (snd (connectSW e s)) (length (channels s))
          \<lparr>tid = next_timer s, due = now s + 20000, period = Some 20000, callback = Ping\<rparr>"
    using assms None
    by (simp add: connectSW_opens beating_def known_ports_def filter_fresh_port known_ports_mono)
  then show ?thesis unfolding steady_def by blast
next
  case (Some x)
  have "waiting (snd (connectSW e s))
          \<lparr>tid = next_timer s, due = now s + 2000, period = None, callback = ConnectSW\<rparr>"
    using assms Some by (simp add: connectSW_throws waiting_def known_ports_def)
  then show ?thesis unfolding steady_def by blast
qed

lemma steady_boot: "steady (boot t0 e)"
  unfolding boot_def by (rule connectSW_steady) (simp_all add: initial_def known_ports_def)

lemma beating_disconnect:
  assumes "beating s p t"
  shows "disconnect p s =
           s\<lparr>open_ports := [],
             timers := [\<lparr>tid = next_timer s, due = now s + 1000, period = None,
                         callback = ConnectSW\<rparr>],
             console := console s @ [Warn ''[offscreen] Keepalive port disconnected''],
             next_timer := Suc (next_timer s)\<rparr>"
  using assms by (simp add: beating_def disconnect_def onDisconnect_eq)

lemma beating_fire:
  assumes "beating s p t"
  shows "deliver (Fire (tid t) e) s =
           s\<lparr>sent := (case post_throws e of
                        None \<Rightarrow> sent s @ [(p, [(''type'', JStr ''ping''), (''ts'', JNum (now s))])]
                      | Some x \<Rightarrow> sent s),
             timers := [t\<lparr>due := due t + 20000\<rparr>]\<rparr>"
  using assms by (simp add: beating_def fire_timer_def ping_eq split: option.splits)

lemma waiting_fire:
  assumes "waiting s t"
  shows "deliver (Fire (tid t) e) s = snd (connectSW e (s\<lparr>timers := []\<rparr>))"
  using assms by (simp add: waiting_def fire_timer_def)

lemma steady_deliver:
  assumes "steady s" "enabled ev s"
  shows "steady (deliver ev s)"
proof -
  from assms(1) consider (live) p t where "beating s p t" | (idle) t where "waiting s t"
    unfolding steady_def by blast
  then show ?thesis
  proof cases
    case live
    show ?thesis
    proof (cases ev)
      case (Advance d)
      with live assms(2) have "beating (deliver ev s) p t"
        by (simp add: beating_def known_ports_def)
      then show ?thesis unfolding steady_def by blast
    next
      case (Fire i e)
      with live assms(2) have i: "i = tid t" and d: "due t = now s"
        by (simp_all add: beating_def)
      have "beating (deliver (Fire (tid t) e) s) p (t\<lparr>due := due t + 20000\<rparr>)"
        unfolding beating_fire [OF live] using live d by (simp add: beating_def known_ports_def)
      then show ?thesis unfolding steady_def Fire i by blast
    next
      case (Disconnect q)
      with live assms(2) have q: "q = p" by (simp add: beating_def)
      have "waiting (disconnect p s)
              \<lparr>tid = next_timer s, due = now s + 1000, period = None, callback = ConnectSW\<rparr>"
        unfolding beating_disconnect [OF live] using live
        by (simp add: beating_def waiting_def known_ports_def)
      then show ?thesis unfolding steady_def Disconnect q by auto
    qed
  next
    case idle
    show ?thesis
    proof (cases ev)
      case (Advance d)
      with idle assms(2) have "waiting (deliver ev s) t"
        by (simp add: waiting_def known_ports_def)
      then show ?thesis unfolding steady_def by blast
    next
      case (Fire i e)
      with idle assms(2) have i: "i = tid t"
        by (simp_all add: waiting_def)
      have "steady (snd (connectSW e (s\<lparr>timers := []\<rparr>)))"
        using idle by (intro connectSW_steady) (simp_all add: waiting_def known_ports_def)
      then show ?thesis unfolding Fire i by (simp only: waiting_fire [OF idle])
    next
      case (Disconnect q)
      with idle assms(2) show ?thesis by (simp add: waiting_def)
    qed
  qed
qed

lemma steady_run: "steady s \<Longrightarrow> run evs s = Some s' \<Longrightarrow> steady s'"
  by (induction evs arbitrary: s) (auto split: if_splits intro: steady_deliver)

lemma steady_reached: "run evs (boot t0 e) = Some s \<Longrightarrow> steady s"
  using steady_boot steady_run by blast

lemma beating_timers: "beating s p t \<Longrightarrow> heartbeats s = [t] \<and> retries s = []"
  by (simp add: beating_def heartbeats_def retries_def)

lemma waiting_timers: "waiting s t \<Longrightarrow> heartbeats s = [] \<and> retries s = [t]"
  by (simp add: waiting_def heartbeats_def retries_def)

subsection \<open>The state between events when timers may be late\<close>

lemma connectSW_settled:
  assumes "timers s = []" "open_ports s = []" "known_ports s"
  shows "settled (snd (connectSW e s))"
proof (cases "connect_throws e")
  case None
  have "pulsing (snd (connectSW e s)) (length (channels s))
          \<lparr>tid = next_timer s, due = now s + 20000, period = Some 20000, callback = Ping\<rparr>"
    using assms None
    by (simp add: connectSW_opens pulsing_def known_ports_def filter_fresh_port known_ports_mono)
  then show ?thesis unfolding settled_def by blast
next
  case (Some x)
  have "pending (snd (connectSW e s))
          \<lparr>tid = next_timer s, due = now s + 2000, period = None, callback = ConnectSW\<rparr>"
    using assms Some by (simp add: connectSW_throws pending_def known_ports_def)
  then show ?thesis unfolding settled_def by blast
qed

lemma settled_boot: "settled (boot t0 e)"
  unfolding boot_def by (rule connectSW_settled) (simp_all add: initial_def known_ports_def)

lemma settled_deliver:
  assumes "settled s" "allowed ev s"
  shows "settled (deliver ev s)"
proof -
  from assms(1) consider (live) p t where "pulsing s p t" | (idle) t where "pending s t"
    unfolding settled_def by blast
  then show ?thesis
  proof cases
    case live
    show ?thesis
    proof (cases ev)
      case (Advance d)
      with live have "pulsing (deliver ev s) p t" by (simp add: pulsing_def known_ports_def)
      then show ?thesis unfolding settled_def by blast
    next
      case (Fire i e)
      with live assms(2) have i: "i = tid t" by (simp add: pulsing_def)
      have "pulsing (deliver (Fire (tid t) e) s) p (t\<lparr>due := due t + 20000\<rparr>)"
        using live
        by (simp add: pulsing_def known_ports_def fire_timer_def ping_eq split: option.splits)
      then show ?thesis unfolding settled_def Fire i by blast
    next
      case (Disconnect q)
      with live assms(2) have q: "q = p" by (simp add: pulsing_def)
      have "pending (disconnect p s)
              \<lparr>tid = next_timer s, due = now s + 1000, period = None, callback = ConnectSW\<rparr>"
        using live
        by (simp add: pulsing_def pending_def known_ports_def disconnect_def onDisconnect_eq)
      then show ?thesis unfolding settled_def Disconnect q by auto
    qed
  next
    case idle
    show ?thesis
    proof (cases ev)
      case (Advance d)
      with idle have "pending (deliver ev s) t" by (simp add: pending_def known_ports_def)
      then show ?thesis unfolding settled_def by blast
    next
      case (Fire i e)
      with idle assms(2) have i: "i = tid t" by (simp add: pending_def)
      have "settled (snd (connectSW e (s\<lparr>timers := []\<rparr>)))"
        using idle by (intro connectSW_settled) (simp_all add: pending_def known_ports_def)
      moreover have "deliver (Fire (tid t) e) s = snd (connectSW e (s\<lparr>timers := []\<rparr>))"
        using idle by (simp add: pending_def fire_timer_def)
      ultimately show ?thesis unfolding Fire i by simp
    next
      case (Disconnect q)
      with idle assms(2) show ?thesis by (simp add: pending_def)
    qed
  qed
qed

lemma settled_run_late: "settled s \<Longrightarrow> run_late evs s = Some s' \<Longrightarrow> settled s'"
  by (induction evs arbitrary: s) (auto split: if_splits intro: settled_deliver)

lemma enabled_allowed: "enabled ev s \<Longrightarrow> allowed ev s"
  by (cases ev) simp_all

lemma run_run_late: "run evs s = Some s' \<Longrightarrow> run_late evs s = Some s'"
  by (induction evs arbitrary: s) (auto split: if_splits simp: enabled_allowed)

subsection \<open>What the events leave unchanged\<close>

lemma connectSW_frame:
  "now (snd (connectSW e s)) = now s \<and> sent (snd (connectSW e s)) = sent s"
  by (cases "connect_throws e") (simp_all add: connectSW_opens connectSW_throws)

lemma ping_now: "now (snd (ping e s)) = now s"
  by (simp add: ping_eq split: option.splits)

lemma listeners_frame:
  "now (fold run_listener ls s) = now s \<and> sent (fold run_listener ls s) = sent s \<and>
   open_ports (fold run_listener ls s) = open_ports s"
proof (induction ls arbitrary: s)
  case Nil
  show ?case by simp
next
  case (Cons l ls)
  show ?case by (cases l) (simp add: Cons.IH onDisconnect_eq)
qed

lemma fire_timer_now: "now (fire_timer t e s) = now s"
  by (cases "callback t"; cases "period t") (simp_all add: fire_timer_def Let_def connectSW_frame ping_now)

lemma deliver_now: "now s \<le> now (deliver ev s)"
  by (cases ev) (simp_all add: fire_timer_now disconnect_def listeners_frame split: option.splits)

lemma run_now: "run evs s = Some s' \<Longrightarrow> now s \<le> now s'"
proof (induction evs arbitrary: s)
  case Nil
  then show ?case by simp
next
  case (Cons ev evs)
  then have "now (deliver ev s) \<le> now s'" by (simp split: if_splits)
  with deliver_now [of s ev] show ?case by simp
qed

lemma sent_boot: "sent (boot t0 e) = []"
  by (simp add: boot_def connectSW_frame initial_def)

subsection \<open>The events that can happen in each shape\<close>

lemma steady_cases:
  assumes "steady s"
  obtains (live) p t where "beating s p t" | (idle) t where "waiting s t"
  using assms unfolding steady_def by blast

lemma beating_events:
  assumes "beating s p t" "enabled ev s"
  obtains (tick) e1 where "ev = Fire (tid t) e1" "due t = now s"
        | (adv) d where "ev = Advance d" "now s + d \<le> due t"
        | (disc) "ev = Disconnect p"
  using assms by (cases ev) (auto simp: beating_def)

lemma waiting_events:
  assumes "waiting s t" "enabled ev s"
  obtains (retry) e1 where "ev = Fire (tid t) e1" "due t = now s"
        | (adv) d where "ev = Advance d" "now s + d \<le> due t"
  using assms by (cases ev) (auto simp: waiting_def)

lemma heartbeat_beating: "steady s \<Longrightarrow> t \<in> set (heartbeats s) \<Longrightarrow> \<exists>p. beating s p t"
  by (erule steady_cases) (auto simp: beating_timers waiting_timers)

lemma closed_no_heartbeat:
  "steady s \<Longrightarrow> swPort s = Some p \<Longrightarrow> p \<notin> set (open_ports s) \<Longrightarrow> heartbeats s = []"
  by (erule steady_cases) (auto simp: waiting_timers beating_def)

lemma sent_deliver_other:
  assumes "steady s" "enabled ev s" "\<forall>t e1. ev = Fire (tid t) e1 \<longrightarrow> t \<notin> set (heartbeats s)"
  shows "sent (deliver ev s) = sent s"
  using assms(1)
proof (cases rule: steady_cases)
  case (live p t)
  from live assms(2) show ?thesis
  proof (cases rule: beating_events)
    case (tick e1)
    with assms(3) have "t \<notin> set (heartbeats s)" by blast
    with beating_timers [OF live] show ?thesis by simp
  next
    case (adv d)
    then show ?thesis by simp
  next
    case disc
    then show ?thesis by (simp add: beating_disconnect [OF live])
  qed
next
  case (idle t)
  from idle assms(2) show ?thesis
  proof (cases rule: waiting_events)
    case (retry e1)
    show ?thesis unfolding retry(1) waiting_fire [OF idle] by (simp add: connectSW_frame)
  next
    case (adv d)
    then show ?thesis by simp
  qed
qed

lemma sent_deliver_closed:
  assumes "steady s" "enabled ev s" "q \<notin> set (open_ports s)"
  shows "filter (\<lambda>pm. fst pm = q) (sent (deliver ev s)) = filter (\<lambda>pm. fst pm = q) (sent s)"
proof (cases "\<forall>t e1. ev = Fire (tid t) e1 \<longrightarrow> t \<notin> set (heartbeats s)")
  case True
  with assms(1,2) show ?thesis by (simp add: sent_deliver_other)
next
  case False
  then obtain t e1 where ev: "ev = Fire (tid t) e1" and t: "t \<in> set (heartbeats s)" by blast
  from heartbeat_beating [OF assms(1) t] obtain p where live: "beating s p t" ..
  with assms(3) have "p \<noteq> q" by (auto simp: beating_def)
  then show ?thesis unfolding ev beating_fire [OF live] by (simp split: option.splits)
qed

lemma open_ports_deliver:
  assumes "steady s" "enabled ev s"
  shows "set (open_ports (deliver ev s)) \<subseteq> insert (length (channels s)) (set (open_ports s))"
  using assms(1)
proof (cases rule: steady_cases)
  case (live p t)
  from live assms(2) show ?thesis
  proof (cases rule: beating_events)
    case (tick e1)
    show ?thesis unfolding tick(1) beating_fire [OF live] by auto
  next
    case (adv d)
    then show ?thesis by auto
  next
    case disc
    then show ?thesis by (simp add: beating_disconnect [OF live])
  qed
next
  case (idle t)
  from idle assms(2) show ?thesis
  proof (cases rule: waiting_events)
    case (retry e1)
    show ?thesis unfolding retry(1) waiting_fire [OF idle]
      by (cases "connect_throws e1") (auto simp: connectSW_opens connectSW_throws)
  next
    case (adv d)
    then show ?thesis by auto
  qed
qed

lemma channels_deliver:
  assumes "steady s" "enabled ev s"
  shows "length (channels s) \<le> length (channels (deliver ev s))"
  using assms(1)
proof (cases rule: steady_cases)
  case (live p t)
  from live assms(2) show ?thesis
  proof (cases rule: beating_events)
    case (tick e1)
    show ?thesis unfolding tick(1) beating_fire [OF live] by simp
  next
    case (adv d)
    then show ?thesis by simp
  next
    case disc
    then show ?thesis by (simp add: beating_disconnect [OF live])
  qed
next
  case (idle t)
  from idle assms(2) show ?thesis
  proof (cases rule: waiting_events)
    case (retry e1)
    show ?thesis unfolding retry(1) waiting_fire [OF idle]
      by (cases "connect_throws e1") (auto simp: connectSW_opens connectSW_throws)
  next
    case (adv d)
    then show ?thesis by simp
  qed
qed

lemma closed_stays_closed:
  "steady s \<Longrightarrow> p < length (channels s) \<Longrightarrow> p \<notin> set (open_ports s) \<Longrightarrow>
   run evs s = Some s' \<Longrightarrow> p \<notin> set (open_ports s')"
proof (induction evs arbitrary: s)
  case Nil
  then show ?case by simp
next
  case (Cons ev evs)
  from Cons.prems(4) have en: "enabled ev s" and r: "run evs (deliver ev s) = Some s'"
    by (simp_all split: if_splits)
  have a: "steady (deliver ev s)" using Cons.prems(1) en by (rule steady_deliver)
  have b: "p < length (channels (deliver ev s))"
    using channels_deliver [OF Cons.prems(1) en] Cons.prems(2) by simp
  have c: "p \<notin> set (open_ports (deliver ev s))"
    using open_ports_deliver [OF Cons.prems(1) en] Cons.prems(2,3) by auto
  from Cons.IH [OF a b c r] show ?case .
qed

text \<open>While a retry is pending, nothing happens before it is due.\<close>

lemma waiting_run_early:
  "waiting s t \<Longrightarrow> run evs s = Some s' \<Longrightarrow> now s' < due t \<Longrightarrow> s' = s\<lparr>now := now s'\<rparr>"
proof (induction evs arbitrary: s)
  case Nil
  then show ?case by simp
next
  case (Cons ev evs)
  from Cons.prems(2) have en: "enabled ev s" and r: "run evs (deliver ev s) = Some s'"
    by (simp_all split: if_splits)
  show ?case
  proof (cases ev)
    case (Advance d)
    with en Cons.prems(1) have "waiting (deliver ev s) t"
      by (simp add: waiting_def known_ports_def)
    from Cons.IH [OF this r Cons.prems(3)] show ?thesis by (simp add: Advance)
  next
    case (Fire i e)
    with en Cons.prems(1) have "due t \<le> now s" by (simp add: waiting_def)
    moreover have "now s \<le> now (deliver ev s)" by (rule deliver_now)
    moreover from r have "now (deliver ev s) \<le> now s'" by (rule run_now)
    ultimately show ?thesis using Cons.prems(3) by simp
  next
    case (Disconnect q)
    with en Cons.prems(1) show ?thesis by (simp add: waiting_def)
  qed
qed

lemma waiting_enabled_fire:
  "waiting s t \<Longrightarrow> enabled (Fire i e) (s\<lparr>now := n\<rparr>) \<longleftrightarrow> i = tid t \<and> due t \<le> n"
  by (auto simp: waiting_def)

lemma waiting_enabled_advance:
  "waiting s t \<Longrightarrow> enabled (Advance d) (s\<lparr>now := n\<rparr>) \<longleftrightarrow> n + d \<le> due t"
  by (auto simp: waiting_def)

subsection \<open>The messages sent\<close>

lemma stamped_deliver:
  assumes "list_all (\<lambda>pm. \<exists>n\<le>now s. snd pm = [(''type'', JStr ''ping''), (''ts'', JNum n)]) (sent s)"
  shows "list_all (\<lambda>pm. \<exists>n\<le>now (deliver ev s). snd pm = [(''type'', JStr ''ping''), (''ts'', JNum n)])
           (sent (deliver ev s))"
proof -
  have later: "list_all (\<lambda>pm. \<exists>n\<le>k. snd pm = [(''type'', JStr ''ping''), (''ts'', JNum n)]) (sent s)"
    if "now s \<le> k" for k
    using assms that by (auto simp: list_all_iff intro: order_trans)
  show ?thesis
  proof (cases ev)
    case (Advance d)
    then show ?thesis using later [of "now s + d"] by simp
  next
    case (Disconnect p)
    then show ?thesis using assms by (simp add: disconnect_def listeners_frame)
  next
    case (Fire i e1)
    show ?thesis
    proof (cases "find (\<lambda>t. tid t = i) (timers s)")
      case None
      with Fire assms show ?thesis by simp
    next
      case (Some t)
      have "list_all (\<lambda>pm. \<exists>n\<le>now s. snd pm = [(''type'', JStr ''ping''), (''ts'', JNum n)])
              (sent (fire_timer t e1 s))"
        using assms
        by (cases "callback t"; cases "period t")
           (auto simp: fire_timer_def Let_def connectSW_frame ping_eq split: option.splits)
      with Fire Some show ?thesis by (simp add: fire_timer_now)
    qed
  qed
qed

lemma stamped_run:
  "list_all (\<lambda>pm. \<exists>n\<le>now s. snd pm = [(''type'', JStr ''ping''), (''ts'', JNum n)]) (sent s) \<Longrightarrow>
   run evs s = Some s' \<Longrightarrow>
   list_all (\<lambda>pm. \<exists>n\<le>now s'. snd pm = [(''type'', JStr ''ping''), (''ts'', JNum n)]) (sent s')"
proof (induction evs arbitrary: s)
  case Nil
  then show ?case by simp
next
  case (Cons ev evs)
  from Cons.prems(2) have r: "run evs (deliver ev s) = Some s'" by (simp split: if_splits)
  from Cons.IH [OF stamped_deliver [OF Cons.prems(1)] r] show ?case .
qed

subsection \<open>Handles stay apart, whatever the browser delivers\<close>

lemma listeners_fresh_handle:
  "list_all (\<lambda>pl. fst pl < (n::nat) \<and> captured (snd pl) < (k::nat)) ls \<Longrightarrow>
   n \<notin> fst ` set ls \<and> OnDisconnect k \<notin> snd ` set ls \<and>
   list_all (\<lambda>pl. fst pl < Suc n \<and> captured (snd pl) < Suc k) ls \<and>
   list_all (\<lambda>pl. fst pl < n \<and> captured (snd pl) < Suc k) ls"
  by (induction ls) auto

lemma timers_fresh_handle:
  "list_all (\<lambda>t. tid t < (k::nat)) ts \<Longrightarrow> list_all (\<lambda>t. tid t < Suc k) ts"
  by (induction ts) auto

lemma filter_list_all: "list_all P xs \<Longrightarrow> list_all P (filter Q xs)"
  by (induction xs) auto

lemma rearm_list_all:
  "list_all (\<lambda>t. tid t < (k::nat)) ts \<Longrightarrow>
   list_all (\<lambda>t. tid t < k) (map (\<lambda>u. if tid u = i then u\<lparr>due := due u + n\<rparr> else u) ts)"
  by (induction ts) auto

lemma fresh_connectSW: "fresh s \<Longrightarrow> fresh (snd (connectSW e s))"
  by (cases "connect_throws e")
     (auto simp: fresh_def connectSW_opens connectSW_throws timers_fresh_handle
           dest: listeners_fresh_handle)

lemma fresh_ping: "fresh s \<Longrightarrow> fresh (snd (ping e s))"
  by (simp add: fresh_def ping_eq split: option.splits)

lemma fresh_onDisconnect: "fresh s \<Longrightarrow> fresh (snd (onDisconnect i s))"
  by (auto simp: fresh_def onDisconnect_eq timers_fresh_handle filter_list_all
           dest: listeners_fresh_handle)

lemma fresh_listeners: "fresh s \<Longrightarrow> fresh (fold run_listener ls s)"
proof (induction ls arbitrary: s)
  case Nil
  then show ?case by simp
next
  case (Cons l ls)
  show ?case by (cases l) (simp add: Cons.IH Cons.prems fresh_onDisconnect)
qed

lemma fresh_timers_only:
  "fresh s \<Longrightarrow> list_all (\<lambda>t. tid t < next_timer s) ts \<Longrightarrow> fresh (s\<lparr>timers := ts\<rparr>)"
  by (simp add: fresh_def)

lemma fresh_fire_timer: "fresh s \<Longrightarrow> fresh (fire_timer t e s)"
proof (cases "period t")
  case None
  assume f: "fresh s"
  have "fresh (s\<lparr>timers := filter (\<lambda>u. tid u \<noteq> tid t) (timers s)\<rparr>)"
    using f by (intro fresh_timers_only) (simp_all add: fresh_def filter_list_all)
  then show ?thesis
    using None by (cases "callback t") (simp_all add: fire_timer_def fresh_connectSW fresh_ping)
next
  case (Some n)
  assume f: "fresh s"
  have "fresh (snd (run_callback (callback t) e s))"
    using f by (cases "callback t") (simp_all add: fresh_connectSW fresh_ping)
  then show ?thesis
    using Some by (simp add: fire_timer_def Let_def fresh_def rearm_list_all)
qed

lemma fresh_deliver: "fresh s \<Longrightarrow> fresh (deliver ev s)"
proof (cases ev)
  case (Advance d)
  assume "fresh s" then show ?thesis using Advance by (simp add: fresh_def)
next
  case (Fire i e)
  assume "fresh s" then show ?thesis using Fire by (simp add: fresh_fire_timer split: option.splits)
next
  case (Disconnect p)
  assume f: "fresh s"
  have "fresh (s\<lparr>open_ports := removeAll p (open_ports s)\<rparr>)" using f by (simp add: fresh_def)
  then show ?thesis using Disconnect by (simp add: disconnect_def fresh_listeners)
qed

lemma fresh_run_lax: "fresh s \<Longrightarrow> run_lax evs s = Some s' \<Longrightarrow> fresh s'"
  by (induction evs arbitrary: s) (auto split: if_splits intro: fresh_deliver)

lemma fresh_boot: "fresh (boot t0 e)"
  unfolding boot_def by (rule fresh_connectSW) (simp add: fresh_def initial_def)

lemma one_listener:
  "distinct (map fst ls) \<Longrightarrow> (p, l) \<in> set ls \<Longrightarrow> filter (\<lambda>pl. fst pl = p) ls = [(p, l)]"
proof (induction ls)
  case Nil
  then show ?case by simp
next
  case (Cons a ls)
  show ?case
  proof (cases "a = (p, l)")
    case True
    with Cons.prems(1) have "filter (\<lambda>pl. fst pl = p) ls = []"
      by (auto simp: filter_empty_conv)
    with True show ?thesis by simp
  next
    case False
    with Cons.prems have "(p, l) \<in> set ls" "fst a \<noteq> p" by (auto simp: rev_image_eqI)
    with Cons show ?thesis by simp
  qed
qed

lemma other_handle:
  "distinct (map snd ls) \<Longrightarrow> (p, l) \<in> set ls \<Longrightarrow> (q, m) \<in> set ls \<Longrightarrow> q \<noteq> p \<Longrightarrow> m \<noteq> l"
  by (induction ls) (auto simp: rev_image_eqI)

section \<open>Some runs\<close>

text \<open>
  The page opens its port at time 0; the clock reaches the first heartbeat.
\<close>

lemma run_first_tick_due:
  "run [Advance 20000] (boot 0 ok) =
     Some \<lparr>swPort = Some 0,
       timers = [\<lparr>tid = 1, due = 20000, period = Some 20000, callback = Ping\<rparr>],
       next_timer = 2, channels = [[(''name'', JStr ''bt-keepalive'')]],
       open_ports = [0], listeners = [(0, OnDisconnect 1)],
       console = [Log ''[offscreen] Connected keepalive port to service worker''],
       sent = [], now = 20000\<rparr>"
  by (simp add: evals)

text \<open>
  Scenario A of the specification up to its disconnect: the port opens at time 0,
  heartbeats at 20, 40 and 60 seconds, and the clock reaches 65 seconds.
\<close>

lemma run_scenario_A:
  "run [Advance 20000, Fire 1 ok, Advance 20000, Fire 1 ok, Advance 20000, Fire 1 ok,
        Advance 5000] (boot 0 ok) =
     Some \<lparr>swPort = Some 0,
       timers = [\<lparr>tid = 1, due = 80000, period = Some 20000, callback = Ping\<rparr>],
       next_timer = 2, channels = [[(''name'', JStr ''bt-keepalive'')]],
       open_ports = [0], listeners = [(0, OnDisconnect 1)],
       console = [Log ''[offscreen] Connected keepalive port to service worker''],
       sent = [(0, [(''type'', JStr ''ping''), (''ts'', JNum 20000)]),
               (0, [(''type'', JStr ''ping''), (''ts'', JNum 40000)]),
               (0, [(''type'', JStr ''ping''), (''ts'', JNum 60000)])],
       now = 65000\<rparr>"
  by (simp add: evals)

text \<open>
  Ticks, disconnects, a retry that fails and retries that open, one after the other,
  every timer some milliseconds late.
\<close>

lemma run_late_cycles:
  "run_late [Advance 20007, Fire 1 ok, Disconnect 0, Advance 1500, Fire 2 failing,
             Advance 2001, Fire 3 ok, Advance 50000, Fire 4 failing, Disconnect 1]
     (boot 0 ok) =
     Some \<lparr>swPort = Some 1,
       timers = [\<lparr>tid = 5, due = 74508, period = None, callback = ConnectSW\<rparr>],
       next_timer = 6,
       channels = [[(''name'', JStr ''bt-keepalive'')], [(''name'', JStr ''bt-keepalive'')]],
       open_ports = [],
       listeners = [(0, OnDisconnect 1), (1, OnDisconnect 4)],
       console =
         [Log ''[offscreen] Connected keepalive port to service worker'',
          Warn ''[offscreen] Keepalive port disconnected'',
          Error ''[offscreen] Failed to connect to SW'' (PlatformError ''no service worker''),
          Log ''[offscreen] Connected keepalive port to service worker'',
          Warn ''[offscreen] Keepalive port disconnected''],
       sent = [(0, [(''type'', JStr ''ping''), (''ts'', JNum 20007)])],
       now = 73508\<rparr>"
  by (simp add: evals)

text \<open>
  The first port is disconnected at once and the retry opens a second port.
\<close>

lemma run_lax_reconnected:
  "run_lax [Disconnect 0, Advance 1000, Fire 2 ok] (boot 0 ok) =
     Some \<lparr>swPort = Some 1,
       timers = [\<lparr>tid = 3, due = 21000, period = Some 20000, callback = Ping\<rparr>],
       next_timer = 4,
       channels = [[(''name'', JStr ''bt-keepalive'')], [(''name'', JStr ''bt-keepalive'')]],
       open_ports = [1],
       listeners = [(0, OnDisconnect 1), (1, OnDisconnect 3)],
       console =
         [Log ''[offscreen] Connected keepalive port to service worker'',
          Warn ''[offscreen] Keepalive port disconnected'',
          Log ''[offscreen] Connected keepalive port to service worker''],
       sent = [], now = 1000\<rparr>"
  by (simp add: evals)

section \<open>The claims\<close>

text \<open>
  C1. \<open>connectSW\<close> never throws to its caller, whatever the browser answers and in
  whatever state it is called. When \<open>chrome.runtime.connect\<close> throws \<open>x\<close>, the call
  returns normally, and it has written one \<open>console.error\<close> line carrying \<open>x\<close> and
  added exactly one timer, a timeout that calls \<open>connectSW\<close> and is due 2000 ms from
  now; nothing else has changed.
\<close>

theorem connectSW_never_throws:
  "fst (connectSW e s) = Inr () \<and>
   connectSW (e\<lparr>connect_throws := Some x\<rparr>) s =
     (Inr (),
      s\<lparr>console := console s @ [Error ''[offscreen] Failed to connect to SW'' x],
        timers := timers s @
          [\<lparr>tid = next_timer s, due = now s + 2000, period = None, callback = ConnectSW\<rparr>],
        next_timer := Suc (next_timer s)\<rparr>)"
proof (cases "connect_throws e")
  case None
  then show ?thesis by (simp add: connectSW_opens connectSW_throws)
next
  case (Some y)
  then show ?thesis by (simp add: connectSW_throws)
qed

text \<open>
  C2. In every state the event loop reaches from the loaded page, through any number
  of events (ticks, disconnects, retries that open and retries that fail), there is at
  most one heartbeat timer and at most one pending retry; in fact exactly one timer, of
  one kind or the other. The browser is taken to deliver \<open>onDisconnect\<close> for connected
  ports only, so once for a port; its timers may be late. (A run with timers on time is
  such a run.)
\<close>

theorem one_heartbeat_one_retry:
  assumes "run_late evs (boot t0 e) = Some s"
  shows "length (heartbeats s) \<le> 1 \<and> length (retries s) \<le> 1 \<and>
         length (heartbeats s) + length (retries s) = 1"
proof -
  from settled_boot assms have "settled s" by (rule settled_run_late)
  then consider (live) p t where "pulsing s p t" | (idle) t where "pending s t"
    unfolding settled_def by blast
  then show ?thesis
  proof cases
    case live
    then show ?thesis by (simp add: pulsing_def heartbeats_def retries_def)
  next
    case idle
    then show ?thesis by (simp add: pending_def heartbeats_def retries_def)
  qed
qed

theorem one_heartbeat_one_retry_witness:
  "\<exists>s. run_late [Advance 20007, Fire 1 ok, Disconnect 0, Advance 1500, Fire 2 failing,
                  Advance 2001, Fire 3 ok, Advance 50000, Fire 4 failing, Disconnect 1]
            (boot 0 ok) = Some s \<and>
       heartbeats s = [] \<and>
       retries s = [\<lparr>tid = 5, due = 74508, period = None, callback = ConnectSW\<rparr>] \<and>
       length (heartbeats s) \<le> 1 \<and> length (retries s) \<le> 1"
proof -
  let ?s = "\<lparr>swPort = Some 1,
       timers = [\<lparr>tid = 5, due = 74508, period = None, callback = ConnectSW\<rparr>],
       next_timer = 6,
       channels = [[(''name'', JStr ''bt-keepalive'')], [(''name'', JStr ''bt-keepalive'')]],
       open_ports = [],
       listeners = [(0, OnDisconnect 1), (1, OnDisconnect 4)],
       console =
         [Log ''[offscreen] Connected keepalive port to service worker'',
          Warn ''[offscreen] Keepalive port disconnected'',
          Error ''[offscreen] Failed to connect to SW'' (PlatformError ''no service worker''),
          Log ''[offscreen] Connected keepalive port to service worker'',
          Warn ''[offscreen] Keepalive port disconnected''],
       sent = [(0, [(''type'', JStr ''ping''), (''ts'', JNum 20007)])],
       now = 73508\<rparr>"
  have r: "run_late [Advance 20007, Fire 1 ok, Disconnect 0, Advance 1500, Fire 2 failing,
                  Advance 2001, Fire 3 ok, Advance 50000, Fire 4 failing, Disconnect 1]
             (boot 0 ok) = Some ?s"
    by (rule run_late_cycles)
  from one_heartbeat_one_retry [OF r]
  have "length (heartbeats ?s) \<le> 1 \<and> length (retries ?s) \<le> 1" by blast
  moreover have "heartbeats ?s = [] \<and>
       retries ?s = [\<lparr>tid = 5, due = 74508, period = None, callback = ConnectSW\<rparr>]"
    by (simp add: heartbeats_def retries_def)
  ultimately show ?thesis using r by (intro exI [of _ ?s]) blast
qed

text \<open>
  C3. In a state the event loop has reached, every heartbeat timer has the period
  20000 ms and is due within the next 20000 ms; it can be run when the clock is at that
  time and at no other. When it is run, it is due again 20000 ms later,
  and the one call of \<open>postMessage\<close> it makes is on the port in \<open>swPort\<close>, which is
  connected: one message when the call returns, none when it throws. No other event
  sends a message. No event sends a message on a port that is not connected, such a
  port stays disconnected, and when the port in \<open>swPort\<close> is not connected there is no
  heartbeat timer. The timer is made by a successful \<open>connectSW\<close>, first due 20000 ms
  after it.
\<close>

theorem heartbeat_every_20_seconds:
  assumes "run evs (boot t0 e) = Some s" and "enabled ev s"
  shows
    "(\<forall>t \<in> set (heartbeats s).
        period t = Some 20000 \<and> now s \<le> due t \<and> due t \<le> now s + 20000 \<and>
        (\<forall>e1. enabled (Fire (tid t) e1) s \<longleftrightarrow> now s = due t) \<and>
        (\<forall>e1. ev = Fire (tid t) e1 \<longrightarrow>
           now s = due t \<and> timers (deliver ev s) = [t\<lparr>due := now s + 20000\<rparr>] \<and>
           (\<exists>p. swPort s = Some p \<and> p \<in> set (open_ports s) \<and>
                sent (deliver ev s) =
                  sent s @
                  (case post_throws e1 of
                     None \<Rightarrow> [(p, [(''type'', JStr ''ping''), (''ts'', JNum (now s))])]
                   | Some x \<Rightarrow> [])))) \<and>
     ((\<forall>t e1. ev = Fire (tid t) e1 \<longrightarrow> t \<notin> set (heartbeats s)) \<longrightarrow>
        sent (deliver ev s) = sent s) \<and>
     (\<forall>q. q \<notin> set (open_ports s) \<longrightarrow>
        filter (\<lambda>pm. fst pm = q) (sent (deliver ev s)) = filter (\<lambda>pm. fst pm = q) (sent s)) \<and>
     (\<forall>q. q < length (channels s) \<and> q \<notin> set (open_ports s) \<longrightarrow>
        q \<notin> set (open_ports (deliver ev s))) \<and>
     (\<forall>p. swPort s = Some p \<and> p \<notin> set (open_ports s) \<longrightarrow> heartbeats s = []) \<and>
     (\<forall>e' s0. connect_throws e' = None \<longrightarrow>
        heartbeats (snd (connectSW e' s0)) =
          heartbeats s0 @
            [\<lparr>tid = next_timer s0, due = now s0 + 20000, period = Some 20000, callback = Ping\<rparr>])"
proof -
  from assms(1) have st: "steady s" by (rule steady_reached)
  have cadence: "period t = Some 20000 \<and> now s \<le> due t \<and> due t \<le> now s + 20000 \<and>
        (\<forall>e1. enabled (Fire (tid t) e1) s \<longleftrightarrow> now s = due t) \<and>
        (\<forall>e1. ev = Fire (tid t) e1 \<longrightarrow>
           now s = due t \<and> timers (deliver ev s) = [t\<lparr>due := now s + 20000\<rparr>] \<and>
           (\<exists>p. swPort s = Some p \<and> p \<in> set (open_ports s) \<and>
                sent (deliver ev s) =
                  sent s @
                  (case post_throws e1 of
                     None \<Rightarrow> [(p, [(''type'', JStr ''ping''), (''ts'', JNum (now s))])]
                   | Some x \<Rightarrow> [])))"
    if t: "t \<in> set (heartbeats s)" for t
  proof -
    from heartbeat_beating [OF st t] obtain p where live: "beating s p t" ..
    have a: "period t = Some 20000 \<and> now s \<le> due t \<and> due t \<le> now s + 20000 \<and>
             (\<forall>e1. enabled (Fire (tid t) e1) s \<longleftrightarrow> now s = due t)"
      using live by (auto simp: beating_def)
    have b: "now s = due t \<and> timers (deliver ev s) = [t\<lparr>due := now s + 20000\<rparr>] \<and>
           (\<exists>p. swPort s = Some p \<and> p \<in> set (open_ports s) \<and>
                sent (deliver ev s) =
                  sent s @
                  (case post_throws e1 of
                     None \<Rightarrow> [(p, [(''type'', JStr ''ping''), (''ts'', JNum (now s))])]
                   | Some x \<Rightarrow> []))"
      if ev: "ev = Fire (tid t) e1" for e1
    proof -
      from assms(2) live have d: "due t = now s" unfolding ev by (simp add: beating_def)
      from live have p: "swPort s = Some p \<and> p \<in> set (open_ports s)" by (simp add: beating_def)
      show ?thesis unfolding ev beating_fire [OF live] using d p by (simp split: option.splits)
    qed
    from a b show ?thesis by blast
  qed
  have other: "(\<forall>t e1. ev = Fire (tid t) e1 \<longrightarrow> t \<notin> set (heartbeats s)) \<longrightarrow>
        sent (deliver ev s) = sent s"
    using sent_deliver_other [OF st assms(2)] by blast
  have closed: "\<forall>q. q \<notin> set (open_ports s) \<longrightarrow>
        filter (\<lambda>pm. fst pm = q) (sent (deliver ev s)) = filter (\<lambda>pm. fst pm = q) (sent s)"
    using sent_deliver_closed [OF st assms(2)] by blast
  have stay: "\<forall>q. q < length (channels s) \<and> q \<notin> set (open_ports s) \<longrightarrow>
        q \<notin> set (open_ports (deliver ev s))"
    using open_ports_deliver [OF st assms(2)] by auto
  have none: "\<forall>p. swPort s = Some p \<and> p \<notin> set (open_ports s) \<longrightarrow> heartbeats s = []"
    using closed_no_heartbeat [OF st] by blast
  have made: "\<forall>e' s0. connect_throws e' = None \<longrightarrow>
        heartbeats (snd (connectSW e' s0)) =
          heartbeats s0 @
            [\<lparr>tid = next_timer s0, due = now s0 + 20000, period = Some 20000, callback = Ping\<rparr>]"
    by (simp add: connectSW_opens heartbeats_def)
  from cadence other closed stay none made show ?thesis by blast
qed

theorem heartbeat_every_20_seconds_witness:
  "\<exists>s. run [Advance 20000] (boot 0 ok) = Some s \<and> enabled (Fire 1 ok) s \<and> now s = 20000 \<and>
       timers (deliver (Fire 1 ok) s) =
         [\<lparr>tid = 1, due = 40000, period = Some 20000, callback = Ping\<rparr>] \<and>
       sent (deliver (Fire 1 ok) s) = [(0, [(''type'', JStr ''ping''), (''ts'', JNum 20000)])]"
proof -
  let ?t = "\<lparr>tid = 1, due = 20000, period = Some 20000, callback = Ping\<rparr>"
  let ?s = "\<lparr>swPort = Some 0, timers = [?t],
       next_timer = 2, channels = [[(''name'', JStr ''bt-keepalive'')]],
       open_ports = [0], listeners = [(0, OnDisconnect 1)],
       console = [Log ''[offscreen] Connected keepalive port to service worker''],
       sent = [], now = 20000\<rparr>"
  have r: "run [Advance 20000] (boot 0 ok) = Some ?s" by (rule run_first_tick_due)
  have en: "enabled (Fire 1 ok) ?s" by simp
  have hb: "heartbeats ?s = [?t]" by (simp add: heartbeats_def)
  from heartbeat_every_20_seconds [OF r en]
  have "\<forall>e1. Fire 1 ok = Fire (tid ?t) e1 \<longrightarrow>
           now ?s = due ?t \<and> timers (deliver (Fire 1 ok) ?s) = [?t\<lparr>due := now ?s + 20000\<rparr>] \<and>
           (\<exists>p. swPort ?s = Some p \<and> p \<in> set (open_ports ?s) \<and>
                sent (deliver (Fire 1 ok) ?s) =
                  sent ?s @
                  (case post_throws e1 of
                     None \<Rightarrow> [(p, [(''type'', JStr ''ping''), (''ts'', JNum (now ?s))])]
                   | Some x \<Rightarrow> []))"
    unfolding hb by simp
  then have "timers (deliver (Fire 1 ok) ?s) =
         [\<lparr>tid = 1, due = 40000, period = Some 20000, callback = Ping\<rparr>] \<and>
       sent (deliver (Fire 1 ok) ?s) = [(0, [(''type'', JStr ''ping''), (''ts'', JNum 20000)])]"
    by (simp add: ok_def)
  with r en show ?thesis by (intro exI [of _ ?s]) simp
qed

text \<open>
  C4. When the browser reports a connected port disconnected, at time \<open>now s\<close>, the
  listener leaves no heartbeat timer (there was one), writes its \<open>console.warn\<close>
  line, and leaves exactly one timer: a timeout for \<open>connectSW\<close> due 1000 ms later.
  In any run from there, as long as the clock is before that time the state differs
  from the one the listener left in its clock only, so nothing has been attempted. The
  clock cannot pass that time while the retry is pending, the retry can be run from
  that time on and not before, and running it calls \<open>connectSW\<close>.
\<close>

theorem disconnect_retries_after_one_second:
  assumes "run evs (boot t0 e) = Some s" and "enabled (Disconnect p) s"
    and "s1 = deliver (Disconnect p) s"
  shows "heartbeats s \<noteq> [] \<and> heartbeats s1 = [] \<and>
         console s1 = console s @ [Warn ''[offscreen] Keepalive port disconnected''] \<and>
         timers s1 =
           [\<lparr>tid = next_timer s, due = now s + 1000, period = None, callback = ConnectSW\<rparr>] \<and>
         (\<forall>evs' s2. run evs' s1 = Some s2 \<and> now s2 < now s + 1000 \<longrightarrow> s2 = s1\<lparr>now := now s2\<rparr>) \<and>
         (\<forall>n d. enabled (Advance d) (s1\<lparr>now := n\<rparr>) \<longleftrightarrow> n + d \<le> now s + 1000) \<and>
         (\<forall>n i e'. enabled (Fire i e') (s1\<lparr>now := n\<rparr>) \<longleftrightarrow> i = next_timer s \<and> now s + 1000 \<le> n) \<and>
         (\<forall>n e'. deliver (Fire (next_timer s) e') (s1\<lparr>now := n\<rparr>) =
                  snd (connectSW e' (s1\<lparr>now := n, timers := []\<rparr>)))"
proof -
  from assms(1) have "steady s" by (rule steady_reached)
  with assms(2) obtain t where live: "beating s p t"
    by (auto simp: steady_def beating_def waiting_def)
  let ?r = "\<lparr>tid = next_timer s, due = now s + 1000, period = None, callback = ConnectSW\<rparr>"
  have s1: "s1 = s\<lparr>open_ports := [], timers := [?r],
                  console := console s @ [Warn ''[offscreen] Keepalive port disconnected''],
                  next_timer := Suc (next_timer s)\<rparr>"
    using assms(3) beating_disconnect [OF live] by simp
  have w: "waiting s1 ?r"
    using live unfolding s1 by (simp add: beating_def waiting_def known_ports_def)
  have early: "\<forall>evs' s2. run evs' s1 = Some s2 \<and> now s2 < now s + 1000 \<longrightarrow> s2 = s1\<lparr>now := now s2\<rparr>"
    using waiting_run_early [OF w] by auto
  have adv: "\<forall>n d. enabled (Advance d) (s1\<lparr>now := n\<rparr>) \<longleftrightarrow> n + d \<le> now s + 1000"
    using waiting_enabled_advance [OF w] by simp
  have fire: "\<forall>n i e'. enabled (Fire i e') (s1\<lparr>now := n\<rparr>) \<longleftrightarrow> i = next_timer s \<and> now s + 1000 \<le> n"
    using waiting_enabled_fire [OF w] by simp
  have runs: "\<forall>n e'. deliver (Fire (next_timer s) e') (s1\<lparr>now := n\<rparr>) =
                  snd (connectSW e' (s1\<lparr>now := n, timers := []\<rparr>))"
    unfolding s1 by (simp add: fire_timer_def)
  have hb: "heartbeats s \<noteq> [] \<and> heartbeats s1 = []"
    using beating_timers [OF live] waiting_timers [OF w] by simp
  have out: "console s1 = console s @ [Warn ''[offscreen] Keepalive port disconnected''] \<and>
             timers s1 = [?r]"
    unfolding s1 by simp
  from hb out early adv fire runs show ?thesis by blast
qed

theorem disconnect_retries_after_one_second_witness:
  "\<exists>s. run [Advance 20000, Fire 1 ok, Advance 20000, Fire 1 ok, Advance 20000, Fire 1 ok,
             Advance 5000] (boot 0 ok) = Some s \<and>
       enabled (Disconnect 0) s \<and> now s = 65000 \<and>
       heartbeats (deliver (Disconnect 0) s) = [] \<and>
       timers (deliver (Disconnect 0) s) =
         [\<lparr>tid = 2, due = 66000, period = None, callback = ConnectSW\<rparr>] \<and>
       \<not> enabled (Fire 2 ok) ((deliver (Disconnect 0) s)\<lparr>now := 65999\<rparr>) \<and>
       enabled (Fire 2 ok) ((deliver (Disconnect 0) s)\<lparr>now := 66000\<rparr>)"
proof -
  let ?s = "\<lparr>swPort = Some 0,
       timers = [\<lparr>tid = 1, due = 80000, period = Some 20000, callback = Ping\<rparr>],
       next_timer = 2, channels = [[(''name'', JStr ''bt-keepalive'')]],
       open_ports = [0], listeners = [(0, OnDisconnect 1)],
       console = [Log ''[offscreen] Connected keepalive port to service worker''],
       sent = [(0, [(''type'', JStr ''ping''), (''ts'', JNum 20000)]),
               (0, [(''type'', JStr ''ping''), (''ts'', JNum 40000)]),
               (0, [(''type'', JStr ''ping''), (''ts'', JNum 60000)])],
       now = 65000\<rparr>"
  have r: "run [Advance 20000, Fire 1 ok, Advance 20000, Fire 1 ok, Advance 20000, Fire 1 ok,
             Advance 5000] (boot 0 ok) = Some ?s" by (rule run_scenario_A)
  have en: "enabled (Disconnect 0) ?s" by simp
  from disconnect_retries_after_one_second [OF r en refl]
  have "heartbeats (deliver (Disconnect 0) ?s) = [] \<and>
       timers (deliver (Disconnect 0) ?s) =
         [\<lparr>tid = 2, due = 66000, period = None, callback = ConnectSW\<rparr>] \<and>
       \<not> enabled (Fire 2 ok) ((deliver (Disconnect 0) ?s)\<lparr>now := 65999\<rparr>) \<and>
       enabled (Fire 2 ok) ((deliver (Disconnect 0) ?s)\<lparr>now := 66000\<rparr>)"
    by simp
  with r en show ?thesis by (intro exI [of _ ?s]) simp
qed

text \<open>
  C5. The disconnect listener is \<open>clearInterval\<close>, then \<open>console.warn\<close>, then
  \<open>setTimeout\<close>: in the state \<open>s2\<close> in which \<open>setTimeout\<close> is called, no timer has the
  captured handle any more and no timer has been added yet; the retry is added to the
  retries of \<open>s2\<close>. In a state the event loop has reached, the listener that a
  disconnect runs has captured the handle of the one heartbeat timer, and no heartbeat
  timer is left after it. A heartbeat timer is run only while the port in \<open>swPort\<close> is
  connected.
\<close>

theorem heartbeat_cleared_before_retry:
  assumes "run evs (boot t0 e) = Some s'"
    and "s2 = console_warn ''[offscreen] Keepalive port disconnected'' (clearInterval i s)"
  shows "onDisconnect i s = (Inr (), snd (setTimeout ConnectSW 1000 s2)) \<and>
         \<not> list_ex (\<lambda>t. tid t = i) (timers s2) \<and>
         next_timer s2 = next_timer s \<and>
         retries s2 = filter (\<lambda>t. tid t \<noteq> i) (retries s) \<and>
         retries (snd (onDisconnect i s)) =
           retries s2 @
             [\<lparr>tid = next_timer s, due = now s + 1000, period = None, callback = ConnectSW\<rparr>] \<and>
         (\<forall>p. enabled (Disconnect p) s' \<longrightarrow>
            (\<exists>t. heartbeats s' = [t] \<and>
                 map snd (filter (\<lambda>pl. fst pl = p) (listeners s')) = [OnDisconnect (tid t)]) \<and>
            heartbeats (deliver (Disconnect p) s') = []) \<and>
         (\<forall>t e1. t \<in> set (heartbeats s') \<and> enabled (Fire (tid t) e1) s' \<longrightarrow>
            (\<exists>p. swPort s' = Some p \<and> p \<in> set (open_ports s')))"
proof -
  from assms(1) have st: "steady s'" by (rule steady_reached)
  have order: "onDisconnect i s = (Inr (), snd (setTimeout ConnectSW 1000 s2))"
    unfolding assms(2) by (simp add: onDisconnect_def Let_def split: prod.splits)
  have gone: "\<not> list_ex (\<lambda>t. tid t = i) (timers s2) \<and> next_timer s2 = next_timer s \<and>
              retries s2 = filter (\<lambda>t. tid t \<noteq> i) (retries s)"
    unfolding assms(2)
    by (auto simp: clearInterval_def console_warn_def retries_def list_ex_iff conj_commute)
  have added: "retries (snd (onDisconnect i s)) =
           retries s2 @
             [\<lparr>tid = next_timer s, due = now s + 1000, period = None, callback = ConnectSW\<rparr>]"
    unfolding assms(2)
    by (simp add: onDisconnect_eq clearInterval_def console_warn_def retries_def conj_commute)
  have disc: "(\<exists>t. heartbeats s' = [t] \<and>
                 map snd (filter (\<lambda>pl. fst pl = p) (listeners s')) = [OnDisconnect (tid t)]) \<and>
            heartbeats (deliver (Disconnect p) s') = []"
    if en: "enabled (Disconnect p) s'" for p
  proof -
    from st en obtain t where live: "beating s' p t"
      by (auto simp: steady_def beating_def waiting_def)
    have "heartbeats (disconnect p s') = []"
      unfolding beating_disconnect [OF live] by (simp add: heartbeats_def)
    with live beating_timers [OF live] show ?thesis by (simp add: beating_def)
  qed
  have tick: "\<exists>p. swPort s' = Some p \<and> p \<in> set (open_ports s')"
    if "t \<in> set (heartbeats s')" for t
    using heartbeat_beating [OF st that] by (auto simp: beating_def)
  from order gone added disc tick show ?thesis by blast
qed

theorem heartbeat_cleared_before_retry_witness:
  "\<exists>s. run [Advance 20000, Fire 1 ok, Advance 20000, Fire 1 ok, Advance 20000, Fire 1 ok,
             Advance 5000] (boot 0 ok) = Some s \<and>
       onDisconnect 1 s =
         (Inr (), snd (setTimeout ConnectSW 1000
            (console_warn ''[offscreen] Keepalive port disconnected'' (clearInterval 1 s)))) \<and>
       \<not> list_ex (\<lambda>t. tid t = 1)
           (timers (console_warn ''[offscreen] Keepalive port disconnected'' (clearInterval 1 s))) \<and>
       enabled (Disconnect 0) s \<and> heartbeats (deliver (Disconnect 0) s) = []"
proof -
  let ?s = "\<lparr>swPort = Some 0,
       timers = [\<lparr>tid = 1, due = 80000, period = Some 20000, callback = Ping\<rparr>],
       next_timer = 2, channels = [[(''name'', JStr ''bt-keepalive'')]],
       open_ports = [0], listeners = [(0, OnDisconnect 1)],
       console = [Log ''[offscreen] Connected keepalive port to service worker''],
       sent = [(0, [(''type'', JStr ''ping''), (''ts'', JNum 20000)]),
               (0, [(''type'', JStr ''ping''), (''ts'', JNum 40000)]),
               (0, [(''type'', JStr ''ping''), (''ts'', JNum 60000)])],
       now = 65000\<rparr>"
  have r: "run [Advance 20000, Fire 1 ok, Advance 20000, Fire 1 ok, Advance 20000, Fire 1 ok,
             Advance 5000] (boot 0 ok) = Some ?s" by (rule run_scenario_A)
  have en: "enabled (Disconnect 0) ?s" by simp
  from heartbeat_cleared_before_retry [OF r refl, of 1 ?s] en
  have "onDisconnect 1 ?s =
         (Inr (), snd (setTimeout ConnectSW 1000
            (console_warn ''[offscreen] Keepalive port disconnected'' (clearInterval 1 ?s)))) \<and>
       \<not> list_ex (\<lambda>t. tid t = 1)
           (timers (console_warn ''[offscreen] Keepalive port disconnected'' (clearInterval 1 ?s))) \<and>
       heartbeats (deliver (Disconnect 0) ?s) = []"
    by blast
  with r en show ?thesis by (intro exI [of _ ?s]) blast
qed

text \<open>
  C6. When \<open>postMessage\<close> throws, the heartbeat returns normally and leaves the state
  as it was: nothing is logged and no timer is added. (The same holds when \<open>swPort\<close> is
  \<open>null\<close>.) Running a heartbeat timer whose \<open>postMessage\<close> throws changes nothing but
  the time the timer is due again. In a state the event loop has reached, the state
  after such a tick is the state before it with the heartbeat due 20000 ms later: the
  heartbeat timer is still the one timer, and there is no retry.
\<close>

theorem failed_ping_is_swallowed:
  assumes "run evs (boot t0 e) = Some s'" and "t \<in> set (heartbeats s')"
    and "enabled (Fire (tid t) (e1\<lparr>post_throws := Some x\<rparr>)) s'"
  shows "ping (e1\<lparr>post_throws := Some x\<rparr>) s = (Inr (), s) \<and>
         ping e1 (s\<lparr>swPort := None\<rparr>) = (Inr (), s\<lparr>swPort := None\<rparr>) \<and>
         fire_timer \<lparr>tid = i, due = d, period = Some n, callback = Ping\<rparr>
             (e1\<lparr>post_throws := Some x\<rparr>) s =
           s\<lparr>timers := map (\<lambda>u. if tid u = i then u\<lparr>due := due u + n\<rparr> else u) (timers s)\<rparr> \<and>
         deliver (Fire (tid t) (e1\<lparr>post_throws := Some x\<rparr>)) s' =
           s'\<lparr>timers := [t\<lparr>due := now s' + 20000\<rparr>]\<rparr> \<and>
         heartbeats (deliver (Fire (tid t) (e1\<lparr>post_throws := Some x\<rparr>)) s') =
           [t\<lparr>due := now s' + 20000\<rparr>] \<and>
         retries (deliver (Fire (tid t) (e1\<lparr>post_throws := Some x\<rparr>)) s') = []"
proof -
  from assms(1) have st: "steady s'" by (rule steady_reached)
  from heartbeat_beating [OF st assms(2)] obtain p where live: "beating s' p t" ..
  from assms(3) live have d: "due t = now s'" by (simp add: beating_def)
  have a: "ping (e1\<lparr>post_throws := Some x\<rparr>) s = (Inr (), s)"
    by (simp add: ping_eq split: option.splits)
  have b: "ping e1 (s\<lparr>swPort := None\<rparr>) = (Inr (), s\<lparr>swPort := None\<rparr>)"
    by (simp add: ping_eq)
  have c: "fire_timer \<lparr>tid = i, due = d, period = Some n, callback = Ping\<rparr>
             (e1\<lparr>post_throws := Some x\<rparr>) s =
           s\<lparr>timers := map (\<lambda>u. if tid u = i then u\<lparr>due := due u + n\<rparr> else u) (timers s)\<rparr>"
    by (simp add: fire_timer_def a)
  have f: "deliver (Fire (tid t) (e1\<lparr>post_throws := Some x\<rparr>)) s' =
           s'\<lparr>timers := [t\<lparr>due := now s' + 20000\<rparr>]\<rparr>"
    unfolding beating_fire [OF live] using d by simp
  have g: "heartbeats (deliver (Fire (tid t) (e1\<lparr>post_throws := Some x\<rparr>)) s') =
           [t\<lparr>due := now s' + 20000\<rparr>] \<and>
         retries (deliver (Fire (tid t) (e1\<lparr>post_throws := Some x\<rparr>)) s') = []"
    unfolding f using live by (simp add: heartbeats_def retries_def beating_def)
  from a b c f g show ?thesis by blast
qed

theorem failed_ping_is_swallowed_witness:
  "\<exists>s. run [Advance 20000] (boot 0 ok) = Some s \<and>
       heartbeats s = [\<lparr>tid = 1, due = 20000, period = Some 20000, callback = Ping\<rparr>] \<and>
       enabled (Fire 1 (ok\<lparr>post_throws := Some (PlatformError ''disconnected port'')\<rparr>)) s \<and>
       deliver (Fire 1 (ok\<lparr>post_throws := Some (PlatformError ''disconnected port'')\<rparr>)) s =
         s\<lparr>timers := [\<lparr>tid = 1, due = 40000, period = Some 20000, callback = Ping\<rparr>]\<rparr>"
proof -
  let ?t = "\<lparr>tid = 1, due = 20000, period = Some 20000, callback = Ping\<rparr>"
  let ?s = "\<lparr>swPort = Some 0, timers = [?t],
       next_timer = 2, channels = [[(''name'', JStr ''bt-keepalive'')]],
       open_ports = [0], listeners = [(0, OnDisconnect 1)],
       console = [Log ''[offscreen] Connected keepalive port to service worker''],
       sent = [], now = 20000\<rparr>"
  let ?e = "ok\<lparr>post_throws := Some (PlatformError ''disconnected port'')\<rparr>"
  have r: "run [Advance 20000] (boot 0 ok) = Some ?s" by (rule run_first_tick_due)
  have hb: "heartbeats ?s = [?t]" by (simp add: heartbeats_def)
  have t: "?t \<in> set (heartbeats ?s)" unfolding hb by simp
  have en: "enabled (Fire (tid ?t) ?e) ?s" by simp
  from failed_ping_is_swallowed [OF r t en]
  have "deliver (Fire (tid ?t) ?e) ?s = ?s\<lparr>timers := [?t\<lparr>due := now ?s + 20000\<rparr>]\<rparr>"
    by blast
  then have "deliver (Fire 1 ?e) ?s =
         ?s\<lparr>timers := [\<lparr>tid = 1, due = 40000, period = Some 20000, callback = Ping\<rparr>]\<rparr>"
    by simp
  with r hb en show ?thesis by (intro exI [of _ ?s]) simp
qed

text \<open>
  C7, as the specification states it: the payload is
  \<open>{ kind: "ping", timestamp: <epoch-milliseconds> }\<close>. The message the first heartbeat
  sends, 20 seconds after the page has opened its port at time 0, has the keys \<open>type\<close>
  and \<open>ts\<close>; it is not the object with the keys \<open>kind\<close> and \<open>timestamp\<close>.
\<close>

theorem ping_payload_counterexample:
  "\<exists>s. run [Advance 20000, Fire 1 ok] (boot 0 ok) = Some s \<and>
       sent s = [(0, [(''type'', JStr ''ping''), (''ts'', JNum 20000)])] \<and>
       sent s \<noteq> [(0, [(''kind'', JStr ''ping''), (''timestamp'', JNum 20000)])]"
  by (simp add: evals)

text \<open>
  C7, amended. A heartbeat whose \<open>postMessage\<close> returns sends, on the port in
  \<open>swPort\<close>, the object \<open>{ type: 'ping', ts: Date.now() }\<close>: the key \<open>type\<close> with the
  string \<open>ping\<close>, then the key \<open>ts\<close> with the clock's value at the tick. Every message
  sent in a run of the event loop is such an object, with a \<open>ts\<close> that is not after the
  clock.
\<close>

theorem ping_payload_is_type_ts:
  assumes "run evs (boot t0 e) = Some s'" and "swPort s = Some p"
  shows "snd (ping (e1\<lparr>post_throws := None\<rparr>) s) =
           s\<lparr>sent := sent s @ [(p, [(''type'', JStr ''ping''), (''ts'', JNum (now s))])]\<rparr> \<and>
         list_all (\<lambda>pm. \<exists>n\<le>now s'. snd pm = [(''type'', JStr ''ping''), (''ts'', JNum n)])
           (sent s')"
proof -
  have "list_all (\<lambda>pm. \<exists>n\<le>now (boot t0 e). snd pm = [(''type'', JStr ''ping''), (''ts'', JNum n)])
          (sent (boot t0 e))"
    by (simp add: sent_boot)
  from stamped_run [OF this assms(1)] assms(2) show ?thesis by (simp add: ping_eq)
qed

theorem ping_payload_is_type_ts_witness:
  "\<exists>s. run [Advance 20000, Fire 1 ok, Advance 20000, Fire 1 ok, Advance 20000, Fire 1 ok,
             Advance 5000] (boot 0 ok) = Some s \<and>
       swPort s = Some 0 \<and> length (sent s) = 3 \<and>
       list_all (\<lambda>pm. \<exists>n\<le>now s. snd pm = [(''type'', JStr ''ping''), (''ts'', JNum n)]) (sent s) \<and>
       snd (ping (ok\<lparr>post_throws := None\<rparr>) s) =
         s\<lparr>sent := sent s @ [(0, [(''type'', JStr ''ping''), (''ts'', JNum 65000)])]\<rparr>"
proof -
  let ?s = "\<lparr>swPort = Some 0,
       timers = [\<lparr>tid = 1, due = 80000, period = Some 20000, callback = Ping\<rparr>],
       next_timer = 2, channels = [[(''name'', JStr ''bt-keepalive'')]],
       open_ports = [0], listeners = [(0, OnDisconnect 1)],
       console = [Log ''[offscreen] Connected keepalive port to service worker''],
       sent = [(0, [(''type'', JStr ''ping''), (''ts'', JNum 20000)]),
               (0, [(''type'', JStr ''ping''), (''ts'', JNum 40000)]),
               (0, [(''type'', JStr ''ping''), (''ts'', JNum 60000)])],
       now = 65000\<rparr>"
  have r: "run [Advance 20000, Fire 1 ok, Advance 20000, Fire 1 ok, Advance 20000, Fire 1 ok,
             Advance 5000] (boot 0 ok) = Some ?s" by (rule run_scenario_A)
  have p: "swPort ?s = Some 0" by simp
  from ping_payload_is_type_ts [OF r p, of ok]
  have "list_all (\<lambda>pm. \<exists>n\<le>now ?s. snd pm = [(''type'', JStr ''ping''), (''ts'', JNum n)]) (sent ?s) \<and>
       snd (ping (ok\<lparr>post_throws := None\<rparr>) ?s) =
         ?s\<lparr>sent := sent ?s @ [(0, [(''type'', JStr ''ping''), (''ts'', JNum (now ?s))])]\<rparr>"
    by blast
  then have "list_all (\<lambda>pm. \<exists>n\<le>now ?s. snd pm = [(''type'', JStr ''ping''), (''ts'', JNum n)]) (sent ?s) \<and>
       snd (ping (ok\<lparr>post_throws := None\<rparr>) ?s) =
         ?s\<lparr>sent := sent ?s @ [(0, [(''type'', JStr ''ping''), (''ts'', JNum 65000)])]\<rparr>"
    by simp
  with r show ?thesis by (intro exI [of _ ?s]) simp
qed

text \<open>
  C8, as the specification states it: when \<open>onDisconnect\<close> fires twice for the same
  port, one retry is scheduled. With the port opened at time 0 and \<open>onDisconnect\<close>
  delivered twice for it at once, two retries are pending.
\<close>

theorem second_disconnect_counterexample:
  "retries (deliver (Disconnect 0) (deliver (Disconnect 0) (boot 0 ok))) =
     [\<lparr>tid = 2, due = 1000, period = None, callback = ConnectSW\<rparr>,
      \<lparr>tid = 3, due = 1000, period = None, callback = ConnectSW\<rparr>]"
  by (simp add: evals retries_def)

text \<open>
  C8, amended. The listener keeps no record of having run: each delivery of
  \<open>onDisconnect\<close> schedules one retry. With a browser that delivers \<open>onDisconnect\<close>
  for connected ports only, a disconnect leaves exactly one retry, and in no later state
  of the run is a disconnect of the same port enabled again: one retry for a port. Were
  the event delivered a second time, the heartbeat timers would be as after the first
  (clearing is idempotent), and a second retry would be pending next to the first.
\<close>

theorem one_retry_per_delivery:
  assumes "run evs (boot t0 e) = Some s" and "enabled (Disconnect p) s"
    and "s1 = deliver (Disconnect p) s"
  shows "retries s1 =
           [\<lparr>tid = next_timer s, due = now s + 1000, period = None, callback = ConnectSW\<rparr>] \<and>
         (\<forall>evs' s2. run evs' s1 = Some s2 \<longrightarrow> \<not> enabled (Disconnect p) s2) \<and>
         heartbeats (deliver (Disconnect p) s1) = heartbeats s1 \<and>
         retries (deliver (Disconnect p) s1) =
           [\<lparr>tid = next_timer s, due = now s + 1000, period = None, callback = ConnectSW\<rparr>,
            \<lparr>tid = Suc (next_timer s), due = now s + 1000, period = None, callback = ConnectSW\<rparr>]"
proof -
  from assms(1) have st: "steady s" by (rule steady_reached)
  with assms(2) obtain t where live: "beating s p t"
    by (auto simp: steady_def beating_def waiting_def)
  let ?r = "\<lparr>tid = next_timer s, due = now s + 1000, period = None, callback = ConnectSW\<rparr>"
  have s1: "s1 = s\<lparr>open_ports := [], timers := [?r],
                  console := console s @ [Warn ''[offscreen] Keepalive port disconnected''],
                  next_timer := Suc (next_timer s)\<rparr>"
    using assms(3) beating_disconnect [OF live] by simp
  have st1: "steady s1" using steady_deliver [OF st assms(2)] assms(3) by simp
  have p: "p < length (channels s1) \<and> p \<notin> set (open_ports s1)"
    using live unfolding s1 by (simp add: beating_def)
  have once: "\<forall>evs' s2. run evs' s1 = Some s2 \<longrightarrow> \<not> enabled (Disconnect p) s2"
    using closed_stays_closed [OF st1] p by auto
  have one: "retries s1 = [?r]" unfolding s1 by (simp add: retries_def)
  have again: "deliver (Disconnect p) s1 =
      s1\<lparr>timers := [?r, \<lparr>tid = Suc (next_timer s), due = now s + 1000, period = None,
                          callback = ConnectSW\<rparr>],
         console := console s1 @ [Warn ''[offscreen] Keepalive port disconnected''],
         next_timer := Suc (Suc (next_timer s))\<rparr>"
    using live unfolding s1 by (simp add: disconnect_def onDisconnect_eq beating_def)
  have two: "heartbeats (deliver (Disconnect p) s1) = heartbeats s1 \<and>
         retries (deliver (Disconnect p) s1) =
           [?r, \<lparr>tid = Suc (next_timer s), due = now s + 1000, period = None, callback = ConnectSW\<rparr>]"
    unfolding again unfolding s1 by (simp add: heartbeats_def retries_def)
  from one once two show ?thesis by blast
qed

theorem one_retry_per_delivery_witness:
  "\<exists>s. run [Advance 20000, Fire 1 ok, Advance 20000, Fire 1 ok, Advance 20000, Fire 1 ok,
             Advance 5000] (boot 0 ok) = Some s \<and>
       enabled (Disconnect 0) s \<and>
       retries (deliver (Disconnect 0) s) =
         [\<lparr>tid = 2, due = 66000, period = None, callback = ConnectSW\<rparr>] \<and>
       \<not> enabled (Disconnect 0) (deliver (Disconnect 0) s) \<and>
       retries (deliver (Disconnect 0) (deliver (Disconnect 0) s)) =
         [\<lparr>tid = 2, due = 66000, period = None, callback = ConnectSW\<rparr>,
          \<lparr>tid = 3, due = 66000, period = None, callback = ConnectSW\<rparr>]"
proof -
  let ?s = "\<lparr>swPort = Some 0,
       timers = [\<lparr>tid = 1, due = 80000, period = Some 20000, callback = Ping\<rparr>],
       next_timer = 2, channels = [[(''name'', JStr ''bt-keepalive'')]],
       open_ports = [0], listeners = [(0, OnDisconnect 1)],
       console = [Log ''[offscreen] Connected keepalive port to service worker''],
       sent = [(0, [(''type'', JStr ''ping''), (''ts'', JNum 20000)]),
               (0, [(''type'', JStr ''ping''), (''ts'', JNum 40000)]),
               (0, [(''type'', JStr ''ping''), (''ts'', JNum 60000)])],
       now = 65000\<rparr>"
  have r: "run [Advance 20000, Fire 1 ok, Advance 20000, Fire 1 ok, Advance 20000, Fire 1 ok,
             Advance 5000] (boot 0 ok) = Some ?s" by (rule run_scenario_A)
  have en: "enabled (Disconnect 0) ?s" by simp
  have here: "run [] (deliver (Disconnect 0) ?s) = Some (deliver (Disconnect 0) ?s)" by simp
  from one_retry_per_delivery [OF r en refl] here
  have "retries (deliver (Disconnect 0) ?s) =
         [\<lparr>tid = next_timer ?s, due = now ?s + 1000, period = None, callback = ConnectSW\<rparr>] \<and>
       \<not> enabled (Disconnect 0) (deliver (Disconnect 0) ?s) \<and>
       retries (deliver (Disconnect 0) (deliver (Disconnect 0) ?s)) =
         [\<lparr>tid = next_timer ?s, due = now ?s + 1000, period = None, callback = ConnectSW\<rparr>,
          \<lparr>tid = Suc (next_timer ?s), due = now ?s + 1000, period = None, callback = ConnectSW\<rparr>]"
    by blast
  then have "retries (deliver (Disconnect 0) ?s) =
         [\<lparr>tid = 2, due = 66000, period = None, callback = ConnectSW\<rparr>] \<and>
       \<not> enabled (Disconnect 0) (deliver (Disconnect 0) ?s) \<and>
       retries (deliver (Disconnect 0) (deliver (Disconnect 0) ?s)) =
         [\<lparr>tid = 2, due = 66000, period = None, callback = ConnectSW\<rparr>,
          \<lparr>tid = 3, due = 66000, period = None, callback = ConnectSW\<rparr>]"
    by simp
  with r en show ?thesis by (intro exI [of _ ?s]) blast
qed

text \<open>
  C9. When \<open>chrome.runtime.connect\<close> throws, \<open>swPort\<close> keeps the value it had before
  the attempt, which is \<open>null\<close> when the attempt is the first one of the page. The ports,
  the listeners, the messages sent and the clock are unchanged too, the timers that were
  active still are, and the heartbeat timers are the same: the one timer added is the
  retry. (The attempt also writes its \<open>console.error\<close> line.)
\<close>

theorem failed_open_keeps_swPort:
  "swPort (snd (connectSW (e\<lparr>connect_throws := Some x\<rparr>) s)) = swPort s \<and>
   swPort (boot t0 (e\<lparr>connect_throws := Some x\<rparr>)) = None \<and>
   channels (snd (connectSW (e\<lparr>connect_throws := Some x\<rparr>) s)) = channels s \<and>
   open_ports (snd (connectSW (e\<lparr>connect_throws := Some x\<rparr>) s)) = open_ports s \<and>
   listeners (snd (connectSW (e\<lparr>connect_throws := Some x\<rparr>) s)) = listeners s \<and>
   sent (snd (connectSW (e\<lparr>connect_throws := Some x\<rparr>) s)) = sent s \<and>
   now (snd (connectSW (e\<lparr>connect_throws := Some x\<rparr>) s)) = now s \<and>
   butlast (timers (snd (connectSW (e\<lparr>connect_throws := Some x\<rparr>) s))) = timers s \<and>
   heartbeats (snd (connectSW (e\<lparr>connect_throws := Some x\<rparr>) s)) = heartbeats s \<and>
   retries (snd (connectSW (e\<lparr>connect_throws := Some x\<rparr>) s)) =
     retries s @
       [\<lparr>tid = next_timer s, due = now s + 2000, period = None, callback = ConnectSW\<rparr>]"
  by (simp add: connectSW_throws boot_def initial_def heartbeats_def retries_def)

text \<open>
  C10. Whatever the browser delivers, also a disconnect of a port that is no longer
  connected: the listener registered on port \<open>p\<close> has captured handle \<open>i\<close>, and
  delivering the disconnect of \<open>p\<close> removes the timers with handle \<open>i\<close> and adds the
  retry, nothing else. The listener of any other port \<open>q\<close> has captured a different
  handle \<open>j\<close>, and the timers with handle \<open>j\<close> are the same before and after. The capture
  is made by a successful \<open>connectSW\<close>: the listener it registers on the new port holds
  the handle of the heartbeat timer it has just made.
\<close>

theorem disconnect_clears_own_heartbeat_only:
  assumes "run_lax evs (boot t0 e) = Some s" and "(p, OnDisconnect i) \<in> set (listeners s)"
  shows "timers (deliver (Disconnect p) s) =
           filter (\<lambda>t. tid t \<noteq> i) (timers s) @
             [\<lparr>tid = next_timer s, due = now s + 1000, period = None, callback = ConnectSW\<rparr>] \<and>
         (\<forall>q j. q \<noteq> p \<and> (q, OnDisconnect j) \<in> set (listeners s) \<longrightarrow>
            j \<noteq> i \<and>
            filter (\<lambda>t. tid t = j) (timers (deliver (Disconnect p) s)) =
              filter (\<lambda>t. tid t = j) (timers s)) \<and>
         (\<forall>e' s0. connect_throws e' = None \<longrightarrow>
            timers (snd (connectSW e' s0)) =
              timers s0 @
                [\<lparr>tid = next_timer s0, due = now s0 + 20000, period = Some 20000,
                  callback = Ping\<rparr>] \<and>
            listeners (snd (connectSW e' s0)) =
              listeners s0 @ [(length (channels s0), OnDisconnect (next_timer s0))])"
proof -
  have f: "fresh s" using fresh_boot assms(1) by (rule fresh_run_lax)
  have l: "filter (\<lambda>pl. fst pl = p) (listeners s) = [(p, OnDisconnect i)]"
    using f assms(2) by (simp add: fresh_def one_listener)
  have own: "timers (deliver (Disconnect p) s) =
           filter (\<lambda>t. tid t \<noteq> i) (timers s) @
             [\<lparr>tid = next_timer s, due = now s + 1000, period = None, callback = ConnectSW\<rparr>]"
    by (simp add: disconnect_def l onDisconnect_eq)
  have others: "j \<noteq> i \<and>
            filter (\<lambda>t. tid t = j) (timers (deliver (Disconnect p) s)) =
              filter (\<lambda>t. tid t = j) (timers s)"
    if q: "q \<noteq> p" and m: "(q, OnDisconnect j) \<in> set (listeners s)" for q j
  proof -
    from f assms(2) m q have ji: "j \<noteq> i"
      using other_handle [of "listeners s" p "OnDisconnect i" q "OnDisconnect j"]
      by (simp add: fresh_def)
    from f m have "j < next_timer s" by (force simp: fresh_def list_all_iff)
    with ji show ?thesis unfolding own by (auto intro: filter_cong)
  qed
  have made: "\<forall>e' s0. connect_throws e' = None \<longrightarrow>
            timers (snd (connectSW e' s0)) =
              timers s0 @
                [\<lparr>tid = next_timer s0, due = now s0 + 20000, period = Some 20000,
                  callback = Ping\<rparr>] \<and>
            listeners (snd (connectSW e' s0)) =
              listeners s0 @ [(length (channels s0), OnDisconnect (next_timer s0))]"
    by (simp add: connectSW_opens)
  from own others made show ?thesis by blast
qed

theorem disconnect_clears_own_heartbeat_only_witness:
  "\<exists>s. run_lax [Disconnect 0, Advance 1000, Fire 2 ok] (boot 0 ok) = Some s \<and>
       listeners s = [(0, OnDisconnect 1), (1, OnDisconnect 3)] \<and>
       timers s = [\<lparr>tid = 3, due = 21000, period = Some 20000, callback = Ping\<rparr>] \<and>
       timers (deliver (Disconnect 0) s) =
         [\<lparr>tid = 3, due = 21000, period = Some 20000, callback = Ping\<rparr>,
          \<lparr>tid = 4, due = 2000, period = None, callback = ConnectSW\<rparr>]"
proof -
  let ?s = "\<lparr>swPort = Some 1,
       timers = [\<lparr>tid = 3, due = 21000, period = Some 20000, callback = Ping\<rparr>],
       next_timer = 4,
       channels = [[(''name'', JStr ''bt-keepalive'')], [(''name'', JStr ''bt-keepalive'')]],
       open_ports = [1],
       listeners = [(0, OnDisconnect 1), (1, OnDisconnect 3)],
       console =
         [Log ''[offscreen] Connected keepalive port to service worker'',
          Warn ''[offscreen] Keepalive port disconnected'',
          Log ''[offscreen] Connected keepalive port to service worker''],
       sent = [], now = 1000\<rparr>"
  have r: "run_lax [Disconnect 0, Advance 1000, Fire 2 ok] (boot 0 ok) = Some ?s"
    by (rule run_lax_reconnected)
  have l: "(0, OnDisconnect 1) \<in> set (listeners ?s)" by simp
  from disconnect_clears_own_heartbeat_only [OF r l]
  have "timers (deliver (Disconnect 0) ?s) =
           filter (\<lambda>t. tid t \<noteq> 1) (timers ?s) @
             [\<lparr>tid = next_timer ?s, due = now ?s + 1000, period = None, callback = ConnectSW\<rparr>]"
    by blast
  then have "timers (deliver (Disconnect 0) ?s) =
         [\<lparr>tid = 3, due = 21000, period = Some 20000, callback = Ping\<rparr>,
          \<lparr>tid = 4, due = 2000, period = None, callback = ConnectSW\<rparr>]"
    by simp
  with r show ?thesis by (intro exI [of _ ?s]) simp
qed

end
